theory Spec2Isabelle
  imports Main "HOL-Library.AList" "HOL-Library.Char_ord" "HOL-Library.List_Lexorder"
begin

section \<open>The heuristic \<open>bids_longitudinal.py\<close>\<close>

text \<open>
  The development embeds \<^verbatim>\<open>src/heudiconv/heuristics/bids_longitudinal.py\<close>:
  \<^verbatim>\<open>create_key\<close>, \<^verbatim>\<open>extract_task_name\<close>, \<^verbatim>\<open>add_series_to_info_dict\<close>,
  \<^verbatim>\<open>clean_up_unneeded_tags_from_info\<close>, \<^verbatim>\<open>sort_seqinfo_by_series_date_time\<close> and
  \<^verbatim>\<open>infotodict\<close>. Python exceptions are values of the type \<open>error\<close>; a function that
  may raise returns \<open>error + 'a\<close>, with \<open>Inl\<close> the exception.
\<close>

datatype error = IndexError | KeyError | ValueError | NameError

subsection \<open>The string operations of Python that the file uses\<close>

text \<open>
  Strings are lists of characters. \<open>str_lower\<close> is \<^verbatim>\<open>str.lower\<close> on ASCII letters (other
  characters are left as they are), \<open>str_contains sub s\<close> is \<^verbatim>\<open>sub in s\<close>,
  \<open>str_split sep s\<close> is \<^verbatim>\<open>s.split(sep)\<close> and \<open>str_replace old new s\<close> is
  \<^verbatim>\<open>s.replace(old, new)\<close>; both scan from the left for non-overlapping occurrences.
  The source calls \<^verbatim>\<open>split\<close> and \<^verbatim>\<open>replace\<close> with non-empty literal patterns only.
\<close>

definition lower_char :: "char \<Rightarrow> char" where
  "lower_char c =
     (case map_of (zip ''ABCDEFGHIJKLMNOPQRSTUVWXYZ'' ''abcdefghijklmnopqrstuvwxyz'') c of
        Some l \<Rightarrow> l
      | None \<Rightarrow> c)"

definition str_lower :: "string \<Rightarrow> string" where
  "str_lower s = map lower_char s"

fun startswith :: "string \<Rightarrow> string \<Rightarrow> bool" where
  "startswith s [] = True"
| "startswith [] (p # ps) = False"
| "startswith (c # cs) (p # ps) = (c = p \<and> startswith cs ps)"

definition endswith :: "string \<Rightarrow> string \<Rightarrow> bool" where
  "endswith s p = startswith (rev s) (rev p)"

fun str_contains :: "string \<Rightarrow> string \<Rightarrow> bool" where
  "str_contains sub [] = (sub = [])"
| "str_contains sub (c # cs) = (startswith (c # cs) sub \<or> str_contains sub cs)"

fun split_from :: "string \<Rightarrow> string \<Rightarrow> string \<Rightarrow> string list" where
  "split_from sep cur [] = [cur]"
| "split_from sep cur (c # cs) =
     (if sep \<noteq> [] \<and> startswith (c # cs) sep
      then cur # split_from sep [] (drop (length sep) (c # cs))
      else split_from sep (cur @ [c]) cs)"

definition str_split :: "string \<Rightarrow> string \<Rightarrow> string list" where
  "str_split sep s = split_from sep [] s"

fun str_replace :: "string \<Rightarrow> string \<Rightarrow> string \<Rightarrow> string" where
  "str_replace old new [] = []"
| "str_replace old new (c # cs) =
     (if old \<noteq> [] \<and> startswith (c # cs) old
      then new @ str_replace old new (drop (length old) (c # cs))
      else c # str_replace old new cs)"

text \<open>\<^verbatim>\<open>xs[i]\<close> for a non-negative index: out of range raises \<^verbatim>\<open>IndexError\<close>.\<close>

definition py_index :: "'a list \<Rightarrow> nat \<Rightarrow> error + 'a" where
  "py_index xs i = (if i < length xs then Inr (xs ! i) else Inl IndexError)"

subsection \<open>\<^verbatim>\<open>extract_task_name\<close>\<close>

definition known_tasks :: "string list" where
  "known_tasks =
     [''rest'', ''face'', ''conflict'', ''gamble'', ''fix'', ''films'', ''inscapes'',
      ''lo bold'', ''loc bold'', ''mt bold'', ''ret bold'']"

text \<open>
  The \<^verbatim>\<open>for\<close> loop over \<^verbatim>\<open>known_tasks\<close>: the value of \<^verbatim>\<open>task_name\<close> when the loop
  ends. A task that is not found sets \<^verbatim>\<open>task_name = ''\<close>, a task that is found is cut
  at \<^verbatim>\<open>' bold'\<close> and ends the loop.
\<close>

fun scan_known_tasks :: "string list \<Rightarrow> string \<Rightarrow> error + string" where
  "scan_known_tasks [] prot_name = Inr []"
| "scan_known_tasks (task_name # rest) prot_name =
     (if str_contains task_name prot_name
      then py_index (str_split '' bold'' task_name) 0
      else scan_known_tasks rest prot_name)"

definition task_after_keyword :: "string \<Rightarrow> error + string" where
  "task_after_keyword prot_name =
     (case py_index (str_split ''task'' prot_name) 1 of
        Inl e \<Rightarrow> Inl e
      | Inr task_name \<Rightarrow>
          (case py_index task_name 0 of
             Inl e \<Rightarrow> Inl e
           | Inr c \<Rightarrow>
               (let task_name = (if c = CHR ''-'' \<or> c = CHR ''_'' then drop 1 task_name
                                 else task_name)
                in case py_index (str_split ''_'' task_name) 0 of
                     Inl e \<Rightarrow> Inl e
                   | Inr task_name \<Rightarrow>
                       (case py_index (str_split ''-'' task_name) 0 of
                          Inl e \<Rightarrow> Inl e
                        | Inr task_name \<Rightarrow> Inr (str_replace '' '' [] task_name)))))"

definition extract_task_name :: "string \<Rightarrow> error + string" where
  "extract_task_name prot_name0 =
     (let prot_name = str_lower prot_name0 in
      case scan_known_tasks known_tasks prot_name of
        Inl e \<Rightarrow> Inl e
      | Inr task_name \<Rightarrow>
          (let task_name = (if task_name = ''lo'' then ''loc'' else task_name) in
           if task_name = [] then
             (if str_contains ''task'' prot_name then task_after_keyword prot_name
              else Inr ''TASK'')
           else Inr task_name))"


subsection \<open>Integers as text\<close>

text \<open>\<open>str_int\<close> is \<^verbatim>\<open>str(n)\<close> and \<open>fmt_02d\<close> is \<^verbatim>\<open>'%02d' % n\<close> for a Python int.\<close>

definition digit_char :: "nat \<Rightarrow> char" where
  "digit_char d = ''0123456789'' ! d"

fun digits :: "nat \<Rightarrow> string" where
  "digits n = (if n < 10 then [digit_char n] else digits (n div 10) @ [digit_char (n mod 10)])"

declare digits.simps [simp del]

definition str_int :: "int \<Rightarrow> string" where
  "str_int i = (if i < 0 then CHR ''-'' # digits (nat (- i)) else digits (nat i))"

definition fmt_02d :: "int \<Rightarrow> string" where
  "fmt_02d i = (if 0 \<le> i \<and> i < 10 then CHR ''0'' # str_int i else str_int i)"

subsection \<open>Naming keys: \<^verbatim>\<open>create_key\<close>\<close>

text \<open>
  A key is the tuple \<^verbatim>\<open>(template, outtype, annotation_classes)\<close>. \<open>path_join\<close> is
  \<^verbatim>\<open>os.path.join\<close> of the POSIX path module.
\<close>

type_synonym key = "string \<times> string list \<times> string list option"

definition join_step :: "string \<Rightarrow> string \<Rightarrow> string" where
  "join_step path b =
     (if startswith b ''/'' then b
      else if path = [] \<or> endswith path ''/'' then path @ b
      else path @ ''/'' @ b)"

definition path_join :: "string \<Rightarrow> string list \<Rightarrow> string" where
  "path_join a ps = foldl join_step a ps"

definition key_template :: "string \<Rightarrow> string \<Rightarrow> string \<Rightarrow> string" where
  "key_template prefix subdir file_suffix =
     path_join prefix
       [''{bids_subject_session_dir}'', subdir, ''{bids_subject_session_prefix}_'' @ file_suffix]"

definition create_key ::
  "string \<Rightarrow> string \<Rightarrow> string list \<Rightarrow> string list option \<Rightarrow> string \<Rightarrow> error + key" where
  "create_key subdir file_suffix outtype annotation_classes prefix =
     (if subdir = [] then Inl ValueError
      else Inr (key_template prefix subdir file_suffix, outtype, annotation_classes))"

definition nii_and_dicom :: "string list" where
  "nii_and_dicom = [''nii.gz'', ''dicom'']"

definition dicom_only :: "string list" where
  "dicom_only = [''dicom'']"

text \<open>
  \<open>new_key subdir file_suffix outtype\<close> is the tuple that
  \<^verbatim>\<open>create_key(subdir, file_suffix, outtype=outtype)\<close> returns for a non-empty \<^verbatim>\<open>subdir\<close>
  (lemma \<open>create_key_new_key\<close> below); every call in \<^verbatim>\<open>infotodict\<close> has a literal,
  non-empty \<^verbatim>\<open>subdir\<close>.
\<close>

definition new_key :: "string \<Rightarrow> string \<Rightarrow> string list \<Rightarrow> key" where
  "new_key subdir file_suffix outtype = (key_template [] subdir file_suffix, outtype, None)"

definition t1 :: key where
  "t1 = new_key ''anat'' ''acq-{acq}_run-{item:02d}_T1w'' nii_and_dicom"

definition t2 :: key where
  "t2 = new_key ''anat'' ''acq-{acq}_run-{item:02d}_T2w'' nii_and_dicom"

definition inplaneT1 :: key where
  "inplaneT1 = new_key ''anat'' ''run-{item:02d}_inplaneT1'' nii_and_dicom"

definition pd_bias_body :: key where
  "pd_bias_body = new_key ''anat'' ''acq-biasBody_run-{item:02d}_PD'' nii_and_dicom"

definition pd_bias_receive :: key where
  "pd_bias_receive = new_key ''anat'' ''acq-biasReceive_run-{item:02d}_PD'' nii_and_dicom"

definition ir :: key where
  "ir = new_key ''anat'' ''inv-{item:02d}_IRT1'' nii_and_dicom"

definition variable_fa :: key where
  "variable_fa = new_key ''anat'' ''flip-{item:02d}_VFA'' nii_and_dicom"

definition dwi :: key where
  "dwi = new_key ''dwi'' ''acq-{acq}_run-{item:02d}_dwi'' nii_and_dicom"

definition dwi_sbref :: key where
  "dwi_sbref = new_key ''dwi'' ''acq-{acq}_run-{item:02d}_sbref'' nii_and_dicom"

definition fmap_gre_mag :: key where
  "fmap_gre_mag = new_key ''fmap'' ''acq-GRE_run-{item:02d}_magnitude'' nii_and_dicom"

definition fmap_gre_phase :: key where
  "fmap_gre_phase = new_key ''fmap'' ''acq-GRE_run-{item:02d}_phasediff'' nii_and_dicom"

definition t2_scout :: key where
  "t2_scout = new_key ''anat'' ''acq-Scout_run-{item:02d}_T2w'' dicom_only"

definition screen_save :: key where
  "screen_save = new_key ''misc'' ''run-{item:02d}_screensave'' dicom_only"

subsection \<open>The classification map and \<^verbatim>\<open>add_series_to_info_dict\<close>\<close>

text \<open>
  An assignment is the dict \<^verbatim>\<open>{'item': series_id}\<close> or \<^verbatim>\<open>{'item': series_id, 'acq': acq}\<close>.
  The map \<^verbatim>\<open>info\<close> is a Python dict, which keeps its keys in insertion order: an
  association list with \<open>AList.update\<close> for \<^verbatim>\<open>info[k] = v\<close> (in place for a key that is
  there, at the end for a new one) and \<open>AList.delete\<close> for \<^verbatim>\<open>info.pop(k)\<close>.
\<close>

record entry =
  item :: string
  acq :: "string option"

type_synonym info = "(key \<times> entry list) list"

text \<open>\<^verbatim>\<open>info[k].append(e)\<close>: a key that is not in the dict raises \<^verbatim>\<open>KeyError\<close>.\<close>

definition append_item :: "key \<Rightarrow> entry \<Rightarrow> info \<Rightarrow> error + info" where
  "append_item k e info =
     (case map_of info k of
        None \<Rightarrow> Inl KeyError
      | Some v \<Rightarrow> Inr (AList.update k (v @ [e]) info))"

text \<open>Lines 100 to 110, the body of \<^verbatim>\<open>add_series_to_info_dict\<close> after its guard.\<close>

definition add_entry :: "string \<Rightarrow> key \<Rightarrow> info \<Rightarrow> string \<Rightarrow> info" where
  "add_entry sid mykey info acq_label =
     (let e = (if acq_label = [] then \<lparr>item = sid, acq = None\<rparr>
               else \<lparr>item = sid, acq = Some acq_label\<rparr>)
      in case map_of info mykey of
           Some v \<Rightarrow> AList.update mykey (v @ [e]) info
         | None \<Rightarrow> AList.update mykey [e] info)"

text \<open>
  The argument \<^verbatim>\<open>mykey\<close> is the empty string or a key tuple, \<^verbatim>\<open>info\<close> is \<^verbatim>\<open>None\<close> or a
  dict. The function has no \<^verbatim>\<open>raise\<close>: it returns the class object \<^verbatim>\<open>Exception\<close>
  (\<open>ReturnedExceptionClass\<close>) or falls off its end (\<open>ReturnedNone\<close>). The second component
  is \<^verbatim>\<open>info\<close> after the call.
\<close>

datatype mykey = EmptyString | KeyTuple key

datatype returned = ReturnedNone | ReturnedExceptionClass

definition add_series_to_info_dict ::
  "string \<Rightarrow> mykey \<Rightarrow> info option \<Rightarrow> string \<Rightarrow> error + (returned \<times> info option)" where
  "add_series_to_info_dict sid mk info acq_label =
     (case info of
        None \<Rightarrow> Inr (ReturnedExceptionClass, None)
      | Some d \<Rightarrow>
          (case mk of
             EmptyString \<Rightarrow> Inr (ReturnedExceptionClass, Some d)
           | KeyTuple k \<Rightarrow> Inr (ReturnedNone, Some (add_entry sid k d acq_label))))"

subsection \<open>\<^verbatim>\<open>clean_up_unneeded_tags_from_info\<close>\<close>

definition run_placeholder :: string where
  "run_placeholder = ''_run-{item:02d}''"

definition run_01 :: string where
  "run_01 = ''_run-01''"

definition run_02 :: string where
  "run_02 = ''_run-02''"

text \<open>\<^verbatim>\<open>info[tuple(new_k)] = info.pop(k)\<close>, with \<^verbatim>\<open>new_k[0]\<close> the new template.\<close>

definition rename_key :: "key \<Rightarrow> string \<Rightarrow> entry list \<Rightarrow> info \<Rightarrow> info" where
  "rename_key k new_template v info = AList.update (new_template, snd k) v (AList.delete k info)"

text \<open>One pass of the loop body, for the key \<open>k\<close> of \<^verbatim>\<open>orig_keys\<close>.\<close>

definition cleanup_key :: "key \<Rightarrow> info \<Rightarrow> error + info" where
  "cleanup_key k info =
     (case map_of info k of
        None \<Rightarrow> Inl KeyError
      | Some v \<Rightarrow>
          if length v = 1 \<and> str_contains run_placeholder (fst k)
          then Inr (rename_key k (str_replace run_placeholder [] (fst k)) v info)
          else if str_contains run_01 (fst k)
          then (let run2 = str_replace run_01 run_02 (fst k) in
                if run2 \<notin> set (map (\<lambda>kk. fst (fst kk)) info)
                then Inr (rename_key k (str_replace run_01 [] (fst k)) v info)
                else Inr info)
          else Inr info)"

fun cleanup_keys :: "key list \<Rightarrow> info \<Rightarrow> error + info" where
  "cleanup_keys [] info = Inr info"
| "cleanup_keys (k # ks) info =
     (case cleanup_key k info of
        Inl e \<Rightarrow> Inl e
      | Inr info' \<Rightarrow> cleanup_keys ks info')"

definition clean_up_unneeded_tags_from_info :: "info \<Rightarrow> error + info" where
  "clean_up_unneeded_tags_from_info info = cleanup_keys (map fst info) info"


subsection \<open>Series records and \<^verbatim>\<open>sort_seqinfo_by_series_date_time\<close>\<close>

text \<open>
  The fields of a \<^verbatim>\<open>seqinfo\<close> entry that the file reads. \<^verbatim>\<open>date\<close>, \<^verbatim>\<open>time\<close> and
  \<^verbatim>\<open>series_uid\<close> may be \<^verbatim>\<open>None\<close>; \<^verbatim>\<open>image_type\<close> is a tuple of strings and \<^verbatim>\<open>dim4\<close>
  an int. The other columns of an entry are not modelled, so the \<^verbatim>\<open>in\<close> tests of
  the sort compare two entries on these nine fields.
\<close>

record seqinfo =
  series_id :: string
  date :: "string option"
  time :: "string option"
  series_uid :: "string option"
  protocol_name :: string
  series_description :: string
  sequence_name :: string
  image_type :: "string list"
  dim4 :: int

text \<open>The truth value of an optional string: \<^verbatim>\<open>None\<close> and \<^verbatim>\<open>''\<close> are false.\<close>

definition truthy :: "string option \<Rightarrow> bool" where
  "truthy x = (case x of None \<Rightarrow> False | Some v \<Rightarrow> v \<noteq> [])"

text \<open>
  \<open>date_time s\<close> is \<^verbatim>\<open>s.date + s.time\<close> where \<^verbatim>\<open>s.date and s.time\<close> holds, and \<open>None\<close>
  where it does not.
\<close>

definition date_time :: "seqinfo \<Rightarrow> string option" where
  "date_time s =
     (case (date s, time s) of
        (Some d, Some t) \<Rightarrow> if truthy (date s) \<and> truthy (time s) then Some (d @ t) else None
      | _ \<Rightarrow> None)"

text \<open>\<^verbatim>\<open>[s.series_uid for s in dTseries if s.series_uid]\<close>\<close>

definition uids_of :: "seqinfo list \<Rightarrow> string list" where
  "uids_of dTseries =
     concat (map (\<lambda>s. case series_uid s of
                         Some u \<Rightarrow> if truthy (series_uid s) then [u] else []
                       | None \<Rightarrow> []) dTseries)"

text \<open>
  The loop over the sorted uids: for each \<^verbatim>\<open>sid\<close>, every series of \<^verbatim>\<open>dTseries\<close> with that
  uid is appended.
\<close>

fun append_by_uid :: "seqinfo list \<Rightarrow> string list \<Rightarrow> seqinfo list \<Rightarrow> seqinfo list" where
  "append_by_uid dTseries [] sortedSeqinfo = sortedSeqinfo"
| "append_by_uid dTseries (sid # sids) sortedSeqinfo =
     append_by_uid dTseries sids
       (sortedSeqinfo @ filter (\<lambda>ss. series_uid ss = Some sid) dTseries)"

text \<open>\<^verbatim>\<open>for ss in xs: if ss not in sortedSeqinfo: sortedSeqinfo.append(ss)\<close>\<close>

fun append_missing :: "seqinfo list \<Rightarrow> seqinfo list \<Rightarrow> seqinfo list" where
  "append_missing [] sortedSeqinfo = sortedSeqinfo"
| "append_missing (ss # rest) sortedSeqinfo =
     append_missing rest
       (if ss \<in> set sortedSeqinfo then sortedSeqinfo else sortedSeqinfo @ [ss])"

fun sort_date_times :: "string list \<Rightarrow> seqinfo list \<Rightarrow> seqinfo list \<Rightarrow> seqinfo list" where
  "sort_date_times [] seqinfo sortedSeqinfo = sortedSeqinfo"
| "sort_date_times (dt # dts) seqinfo sortedSeqinfo =
     (let dTseries = filter (\<lambda>ss. date_time ss = Some dt) seqinfo;
          by_uid = append_by_uid dTseries (sort (uids_of dTseries)) sortedSeqinfo
      in sort_date_times dts seqinfo (append_missing dTseries by_uid))"

text \<open>\<^verbatim>\<open>sorted(set(...))\<close> is the sorted list of the distinct date-times.\<close>

definition dateTimes :: "seqinfo list \<Rightarrow> string list" where
  "dateTimes seqinfo = sort (remdups (List.map_filter date_time seqinfo))"

definition sort_seqinfo_by_series_date_time :: "seqinfo list \<Rightarrow> seqinfo list" where
  "sort_seqinfo_by_series_date_time seqinfo =
     append_missing seqinfo (sort_date_times (dateTimes seqinfo) seqinfo [])"

text \<open>
  For the statements about the order: the distinct elements of a list, in the order of
  their first occurrence.
\<close>

fun first_occurrences :: "'a list \<Rightarrow> 'a list" where
  "first_occurrences [] = []"
| "first_occurrences (x # xs) = x # first_occurrences (removeAll x xs)"

subsection \<open>\<^verbatim>\<open>infotodict\<close>\<close>

text \<open>
  The body of \<^verbatim>\<open>infotodict\<close> reads five names that the file neither defines nor imports
  (its only import is \<^verbatim>\<open>os\<close>): \<^verbatim>\<open>direction\<close>, \<^verbatim>\<open>another_series_has_identical_start_time\<close>,
  \<^verbatim>\<open>previous_series_is_sbref\<close>, \<^verbatim>\<open>t1_dicom\<close> and \<^verbatim>\<open>t2_dicom\<close>. Looking up an unbound
  name raises \<^verbatim>\<open>NameError\<close>, so each of them is the error; the statements that come
  after the lookup are written out as the source has them.
\<close>

definition direction :: "error + string" where
  "direction = Inl NameError"

definition another_series_has_identical_start_time ::
  "error + (seqinfo list \<Rightarrow> nat \<Rightarrow> bool)" where
  "another_series_has_identical_start_time = Inl NameError"

definition previous_series_is_sbref :: "error + (seqinfo list \<Rightarrow> nat \<Rightarrow> bool)" where
  "previous_series_is_sbref = Inl NameError"

definition t1_dicom :: "error + key" where
  "t1_dicom = Inl NameError"

definition t2_dicom :: "error + key" where
  "t2_dicom = Inl NameError"

text \<open>The dict that \<^verbatim>\<open>info\<close> starts as, in the order of the literal.\<close>

definition initial_info :: info where
  "initial_info =
     [(t1, []), (t2, []), (inplaneT1, []), (pd_bias_body, []), (pd_bias_receive, []),
      (dwi, []), (dwi_sbref, []), (fmap_gre_mag, []), (fmap_gre_phase, []),
      (t2_scout, []), (screen_save, [])]"

text \<open>\<^verbatim>\<open>seqinfo[idx - 1]\<close>: for \<^verbatim>\<open>idx = 0\<close> the index is \<^verbatim>\<open>-1\<close>, the last element.\<close>

definition previous :: "seqinfo list \<Rightarrow> nat \<Rightarrow> seqinfo" where
  "previous seqinfo idx = seqinfo ! (if idx = 0 then length seqinfo - 1 else idx - 1)"

text \<open>The conditions of the first \<^verbatim>\<open>if\<close> chain (lines 254 to 297).\<close>

definition is_highres_t1 :: "seqinfo \<Rightarrow> bool" where
  "is_highres_t1 s =
     (let prot_name = str_lower (protocol_name s) in
      dim4 s = 1 \<and> str_contains ''fl'' (sequence_name s)
      \<and> (str_contains ''t1'' prot_name
           \<or> (str_contains ''mp'' prot_name \<and> str_contains ''rage'' prot_name)
           \<or> str_contains ''mpr'' prot_name))"

definition is_inplane :: "seqinfo \<Rightarrow> bool" where
  "is_inplane s =
     (dim4 s = 1 \<and> str_contains ''efgre3d'' (sequence_name s)
      \<and> str_contains ''inplane'' (str_lower (series_description s)))"

definition is_fse_t1 :: "seqinfo \<Rightarrow> bool" where
  "is_fse_t1 s =
     (dim4 s = 1 \<and> str_contains ''t1'' (str_lower (protocol_name s))
      \<and> str_contains ''tse'' (sequence_name s))"

text \<open>
  The statements after \<^verbatim>\<open>acq = 'highres' + direction\<close> in the high-resolution rules (lines
  271 to 277 and 323 to 329): the series goes to the DICOM-only key when
  \<^verbatim>\<open>'NORM' not in s.image_type and another_series_has_identical_start_time(seqinfo, idx)\<close>,
  and to the primary key otherwise. The \<^verbatim>\<open>and\<close> reads the second name only when its
  first operand holds.
\<close>

definition highres_series ::
  "error + key \<Rightarrow> key \<Rightarrow> string \<Rightarrow> seqinfo list \<Rightarrow> nat \<Rightarrow> seqinfo \<Rightarrow> info \<Rightarrow> error + info" where
  "highres_series dicom_key primary_key acq_label seqinfo idx s info =
     (if ''NORM'' \<notin> set (image_type s) then
        (case another_series_has_identical_start_time of
           Inl e \<Rightarrow> Inl e
         | Inr same_start \<Rightarrow>
             if same_start seqinfo idx then
               (case dicom_key of
                  Inl e \<Rightarrow> Inl e
                | Inr k \<Rightarrow> append_item k \<lparr>item = series_id s, acq = Some acq_label\<rparr> info)
             else append_item primary_key \<lparr>item = series_id s, acq = Some acq_label\<rparr> info)
      else append_item primary_key \<lparr>item = series_id s, acq = Some acq_label\<rparr> info)"

definition t1_chain :: "seqinfo list \<Rightarrow> nat \<Rightarrow> seqinfo \<Rightarrow> info \<Rightarrow> error + info" where
  "t1_chain seqinfo idx s info =
     (if is_highres_t1 s then
        (case direction of
           Inl e \<Rightarrow> Inl e
         | Inr d \<Rightarrow> highres_series t1_dicom t1 (''highres'' @ d) seqinfo idx s info)
      else if is_inplane s then
        append_item inplaneT1 \<lparr>item = series_id s, acq = None\<rparr> info
      else if is_fse_t1 s then
        (case direction of
           Inl e \<Rightarrow> Inl e
         | Inr d \<Rightarrow> append_item t1 \<lparr>item = series_id s, acq = Some (''fse'' @ d)\<rparr> info)
      else Inr info)"

text \<open>The conditions of the second chain (lines 301 to 513), in its order.\<close>

definition is_scout :: "seqinfo \<Rightarrow> bool" where
  "is_scout s = (sequence_name s = ''fgre'')"

definition is_highres_t2 :: "seqinfo \<Rightarrow> bool" where
  "is_highres_t2 s =
     (let prot_name = str_lower (protocol_name s) in
      dim4 s = 1
      \<and> (str_contains ''T2'' (protocol_name s) \<or> str_contains ''tse'' prot_name
           \<or> str_contains ''space'' prot_name \<or> str_contains ''spc'' prot_name))"

definition is_haste :: "seqinfo \<Rightarrow> bool" where
  "is_haste s = (dim4 s = 1 \<and> str_contains ''h2d1'' (sequence_name s))"

definition is_pd_bias :: "seqinfo \<Rightarrow> bool" where
  "is_pd_bias s =
     (str_contains ''ASSET calibration'' (series_description s)
      \<and> str_contains ''efgre3d'' (sequence_name s))"

definition is_inversion_recovery :: "seqinfo \<Rightarrow> bool" where
  "is_inversion_recovery s = str_contains ''cni_ir_epi'' (sequence_name s)"

definition is_variable_fa :: "seqinfo \<Rightarrow> bool" where
  "is_variable_fa s =
     (str_contains ''cni_3dgrass'' (sequence_name s) \<and> str_contains ''deg'' (series_description s))"

definition is_functional :: "seqinfo \<Rightarrow> bool" where
  "is_functional s =
     (4 \<le> dim4 s
      \<and> (str_contains ''cni_epi'' (sequence_name s) \<or> str_contains ''muxarcepi'' (sequence_name s))
      \<and> ''DERIVED'' \<notin> set (image_type s))"

definition is_se_fmap :: "seqinfo \<Rightarrow> bool" where
  "is_se_fmap s =
     (let prot_name = str_lower (protocol_name s) in
      dim4 s \<le> 3 \<and> str_contains ''epse2d'' (sequence_name s) \<and> ''M'' \<in> set (image_type s)
      \<and> (str_contains ''dist'' prot_name \<or> str_contains ''map'' prot_name
           \<or> str_contains ''field'' prot_name)
      \<and> \<not> endswith (str_lower (series_description s)) ''_sbref'')"

definition is_gre_fmap :: "seqinfo \<Rightarrow> bool" where
  "is_gre_fmap s =
     (let prot_name = str_lower (protocol_name s) in
      str_contains ''fm2d'' (sequence_name s)
      \<and> (str_contains ''fieldmap'' prot_name \<or> str_contains ''field_map'' prot_name))"

definition is_diffusion :: "seqinfo \<Rightarrow> bool" where
  "is_diffusion s = str_contains ''ep_b'' (sequence_name s)"

definition is_screen_save :: "seqinfo \<Rightarrow> bool" where
  "is_screen_save s = (''DERIVED'' \<in> set (image_type s) \<and> ''SCREEN SAVE'' \<in> set (image_type s))"

text \<open>The bodies of the rules that do more than one append.\<close>

type_synonym run_numbers = "string \<Rightarrow> int option"

definition functional_series ::
  "seqinfo \<Rightarrow> info \<Rightarrow> run_numbers \<Rightarrow> error + (info \<times> run_numbers)" where
  "functional_series s info run_numbers =
     (case extract_task_name (series_description s) of
        Inl e \<Rightarrow> Inl e
      | Inr task \<Rightarrow>
          (let run = (case run_numbers task of
                        Some n \<Rightarrow> if n \<noteq> 0 then n + 1 else 1
                      | None \<Rightarrow> 1);
               mykey = new_key ''func'' (''task-'' @ task @ ''_run-'' @ fmt_02d run @ ''_bold'')
                         nii_and_dicom
           in Inr (add_entry (series_id s) mykey info [], run_numbers(task \<mapsto> run))))"

text \<open>\<^verbatim>\<open>run_dir = direction or 'normal'\<close>\<close>

definition run_dir :: "error + string" where
  "run_dir =
     (case direction of
        Inl e \<Rightarrow> Inl e
      | Inr d \<Rightarrow> Inr (if d \<noteq> [] then d else ''normal''))"

definition se_fmap_series :: "seqinfo list \<Rightarrow> nat \<Rightarrow> seqinfo \<Rightarrow> info \<Rightarrow> error + info" where
  "se_fmap_series seqinfo idx s info =
     (case run_dir of
        Inl e \<Rightarrow> Inl e
      | Inr rd \<Rightarrow>
          if idx + 1 < length seqinfo
             \<and> protocol_name (seqinfo ! (idx + 1)) = protocol_name s
             \<and> ''P'' \<in> set (image_type (seqinfo ! (idx + 1)))
          then
            (let mykey_mag = new_key ''fmap''
                   (''acq-fMRI_rec-magnitude_dir-'' @ rd @ ''_run-{item:02d}_epi'') nii_and_dicom;
                 mykey_pha = new_key ''fmap''
                   (''acq-fMRI_rec-phase_dir-'' @ rd @ ''_run-{item:02d}_epi'') nii_and_dicom
             in Inr (add_entry (series_id (seqinfo ! (idx + 1))) mykey_pha
                       (add_entry (series_id s) mykey_mag info []) []))
          else
            Inr (add_entry (series_id s)
                   (new_key ''fmap'' (''acq-fMRI_dir-'' @ rd @ ''_run-{item:02d}_epi'')
                      nii_and_dicom)
                   info []))"

definition gre_fmap_series :: "seqinfo \<Rightarrow> info \<Rightarrow> error + info" where
  "gre_fmap_series s info =
     (case py_index (image_type s) 2 of
        Inl e \<Rightarrow> Inl e
      | Inr flag \<Rightarrow>
          if flag = ''M'' then append_item fmap_gre_mag \<lparr>item = series_id s, acq = None\<rparr> info
          else if flag = ''P'' then append_item fmap_gre_phase \<lparr>item = series_id s, acq = None\<rparr> info
          else Inr info)"

text \<open>
  The diffusion rule (lines 462 to 505). With five volumes or more the series is appended
  to \<open>dwi\<close> and then \<^verbatim>\<open>previous_series_is_sbref\<close> is looked up; with fewer the first
  statement looks \<^verbatim>\<open>direction\<close> up.
\<close>

definition diffusion_series :: "seqinfo list \<Rightarrow> nat \<Rightarrow> seqinfo \<Rightarrow> info \<Rightarrow> error + info" where
  "diffusion_series seqinfo idx s info =
     (if 5 \<le> dim4 s then
        (let acq_label = str_int (dim4 s) @ ''vols'' in
         case append_item dwi \<lparr>item = series_id s, acq = Some acq_label\<rparr> info of
           Inl e \<Rightarrow> Inl e
         | Inr info1 \<Rightarrow>
             (case previous_series_is_sbref of
                Inl e \<Rightarrow> Inl e
              | Inr is_sbref \<Rightarrow>
                  if is_sbref seqinfo idx
                     \<and> str_contains ''epse2d'' (sequence_name (previous seqinfo idx))
                  then append_item dwi_sbref
                         \<lparr>item = series_id (previous seqinfo idx), acq = Some acq_label\<rparr> info1
                  else Inr info1))
      else
        (case run_dir of
           Inl e \<Rightarrow> Inl e
         | Inr rd \<Rightarrow>
             (let info1 = add_entry (series_id s)
                    (new_key ''fmap'' (''acq-dwi_dir-'' @ rd @ ''_run-{item:02d}_epi'')
                       nii_and_dicom)
                    info []
              in case previous_series_is_sbref of
                   Inl e \<Rightarrow> Inl e
                 | Inr is_sbref \<Rightarrow>
                     if is_sbref seqinfo idx
                     then Inr (add_entry (series_id (previous seqinfo idx))
                                 (new_key ''fmap''
                                    (''acq-dwi_dir-'' @ rd @ ''_run-{item:02d}_sbref'') dicom_only)
                                 info1 [])
                     else Inr info1)))"

definition keep_run_numbers :: "run_numbers \<Rightarrow> error + info \<Rightarrow> error + (info \<times> run_numbers)" where
  "keep_run_numbers run_numbers r =
     (case r of Inl e \<Rightarrow> Inl e | Inr info \<Rightarrow> Inr (info, run_numbers))"

definition second_chain ::
  "seqinfo list \<Rightarrow> nat \<Rightarrow> seqinfo \<Rightarrow> info \<Rightarrow> run_numbers \<Rightarrow> error + (info \<times> run_numbers)" where
  "second_chain seqinfo idx s info run_numbers =
     (if is_scout s then
        keep_run_numbers run_numbers
          (append_item t2_scout \<lparr>item = series_id s, acq = None\<rparr> info)
      else if is_highres_t2 s then
        keep_run_numbers run_numbers
          (case direction of
             Inl e \<Rightarrow> Inl e
           | Inr d \<Rightarrow> highres_series t2_dicom t2 (''highres'' @ d) seqinfo idx s info)
      else if is_haste s then
        keep_run_numbers run_numbers
          (case t2_dicom of
             Inl e \<Rightarrow> Inl e
           | Inr k \<Rightarrow> append_item k \<lparr>item = series_id s, acq = Some ''haste''\<rparr> info)
      else if is_pd_bias s then
        keep_run_numbers run_numbers
          (append_item pd_bias_receive \<lparr>item = series_id s, acq = None\<rparr> info)
      else if is_inversion_recovery s then
        Inr (add_entry (series_id s) ir info [], run_numbers)
      else if is_variable_fa s then
        Inr (add_entry (series_id s) variable_fa info [], run_numbers)
      else if is_functional s then
        functional_series s info run_numbers
      else if is_se_fmap s then
        keep_run_numbers run_numbers (se_fmap_series seqinfo idx s info)
      else if is_gre_fmap s then
        keep_run_numbers run_numbers (gre_fmap_series s info)
      else if is_diffusion s then
        keep_run_numbers run_numbers (diffusion_series seqinfo idx s info)
      else if is_screen_save s then
        keep_run_numbers run_numbers
          (append_item screen_save \<lparr>item = series_id s, acq = None\<rparr> info)
      else Inr (info, run_numbers))"

text \<open>One iteration of \<^verbatim>\<open>for idx, s in enumerate(seqinfo)\<close>: the first chain, then the second.\<close>

definition classify_series ::
  "seqinfo list \<Rightarrow> nat \<Rightarrow> info \<times> run_numbers \<Rightarrow> error + (info \<times> run_numbers)" where
  "classify_series seqinfo idx st =
     (case t1_chain seqinfo idx (seqinfo ! idx) (fst st) of
        Inl e \<Rightarrow> Inl e
      | Inr info1 \<Rightarrow> second_chain seqinfo idx (seqinfo ! idx) info1 (snd st))"

fun cascade ::
  "seqinfo list \<Rightarrow> nat list \<Rightarrow> info \<times> run_numbers \<Rightarrow> error + (info \<times> run_numbers)" where
  "cascade seqinfo [] st = Inr st"
| "cascade seqinfo (idx # idxs) st =
     (case classify_series seqinfo idx st of
        Inl e \<Rightarrow> Inl e
      | Inr st' \<Rightarrow> cascade seqinfo idxs st')"

definition infotodict :: "seqinfo list \<Rightarrow> error + info" where
  "infotodict seqinfo0 =
     (let seqinfo = sort_seqinfo_by_series_date_time seqinfo0 in
      case cascade seqinfo [0..<length seqinfo] (initial_info, Map.empty) of
        Inl e \<Rightarrow> Inl e
      | Inr st \<Rightarrow> clean_up_unneeded_tags_from_info (fst st))"

subsection \<open>Templates on which the cleanup settles\<close>

text \<open>
  A template is \<open>inert\<close> when the cleanup has nothing to erase in it, and \<open>simple\<close> when
  one erasure (of the run placeholder, or of \<^verbatim>\<open>_run-01\<close>) and the substitution of
  \<^verbatim>\<open>_run-02\<close> for \<^verbatim>\<open>_run-01\<close> each leave an inert template. The templates that
  \<^verbatim>\<open>infotodict\<close> builds from \<^verbatim>\<open>create_key\<close> hold one run tag and are simple.
\<close>

definition inert :: "string \<Rightarrow> bool" where
  "inert t = (\<not> str_contains run_placeholder t \<and> \<not> str_contains run_01 t)"

definition simple_template :: "string \<Rightarrow> bool" where
  "simple_template t =
     ((str_contains run_placeholder t \<longrightarrow> inert (str_replace run_placeholder [] t))
      \<and> (str_contains run_01 t \<longrightarrow>
            inert (str_replace run_01 [] t) \<and> inert (str_replace run_01 run_02 t)))"

text \<open>
  The invariant of the cleanup loop. A key is \<open>settled\<close> in a map when the loop body
  leaves the map as it is for that key; the loop keeps \<open>cleanup_inv ks info\<close>, with
  \<open>ks\<close> the keys of \<^verbatim>\<open>orig_keys\<close> still to come.
\<close>

definition settled_key :: "info \<Rightarrow> key \<Rightarrow> bool" where
  "settled_key info k =
     (case map_of info k of
        None \<Rightarrow> True
      | Some v \<Rightarrow>
          \<not> (length v = 1 \<and> str_contains run_placeholder (fst k))
          \<and> (str_contains run_01 (fst k) \<longrightarrow>
                str_replace run_01 run_02 (fst k) \<in> fst ` dom (map_of info)))"

definition cleanup_inv :: "key list \<Rightarrow> info \<Rightarrow> bool" where
  "cleanup_inv ks info =
     (distinct ks \<and> set ks \<subseteq> dom (map_of info)
      \<and> (\<forall>k\<in>dom (map_of info). simple_template (fst k))
      \<and> (\<forall>k\<in>dom (map_of info) - set ks. settled_key info k))"

text \<open>
  \<open>moved_to M M' k k'\<close>: the map \<open>M'\<close> is \<open>M\<close> with the key \<open>k\<close> replaced by \<open>k'\<close>,
  the value kept and every other key as it was.
\<close>

definition moved_to :: "info \<Rightarrow> info \<Rightarrow> key \<Rightarrow> key \<Rightarrow> bool" where
  "moved_to M M' k k' =
     (map_of M' k = None \<and> map_of M' k' = map_of M k
      \<and> (\<forall>q. q \<noteq> k \<and> q \<noteq> k' \<longrightarrow> map_of M' q = map_of M q))"

subsection \<open>Example inputs\<close>

text \<open>A single-volume T1-weighted turbo spin echo, normalised.\<close>

definition t1_tse_series :: seqinfo where
  "t1_tse_series =
     \<lparr>series_id = ''3-t1_tse'', date = Some ''20210209'', time = Some ''101500.000000'',
      series_uid = Some ''1.2.840.3'', protocol_name = ''t1_tse'',
      series_description = ''t1_tse'', sequence_name = ''*tse2d1_3'',
      image_type = [''ORIGINAL'', ''PRIMARY'', ''M'', ''NORM''], dim4 = 1\<rparr>"

text \<open>A screen save of an in-plane anatomical image.\<close>

definition inplane_screen_save_series :: seqinfo where
  "inplane_screen_save_series =
     t1_tse_series\<lparr>series_id := ''2-inplane'', protocol_name := ''Inplane'',
       series_description := ''Inplane'', sequence_name := ''efgre3d'',
       image_type := [''DERIVED'', ''SECONDARY'', ''SCREEN SAVE'']\<rparr>"

text \<open>An in-plane image whose description also names the coil calibration.\<close>

definition inplane_calibration_series :: seqinfo where
  "inplane_calibration_series =
     t1_tse_series\<lparr>series_id := ''13-inplane_cal'', protocol_name := ''Inplane'',
       series_description := ''Inplane ASSET calibration'', sequence_name := ''efgre3d'',
       image_type := [''ORIGINAL'', ''PRIMARY'', ''OTHER'']\<rparr>"

text \<open>A single-volume MPRAGE, normalised.\<close>

definition mprage_series :: seqinfo where
  "mprage_series =
     t1_tse_series\<lparr>series_id := ''14-t1_mprage'', protocol_name := ''t1_mprage_sag'',
       series_description := ''t1_mprage_sag'', sequence_name := ''*tfl3d1_16ns''\<rparr>"

text \<open>Two series with the same date, time and series uid.\<close>

definition same_uid_first :: seqinfo where
  "same_uid_first = t1_tse_series\<lparr>series_id := ''4-echo1''\<rparr>"

definition same_uid_second :: seqinfo where
  "same_uid_second = t1_tse_series\<lparr>series_id := ''5-echo2''\<rparr>"

text \<open>A series with neither date nor time, and one with a date only.\<close>

definition undated_series :: seqinfo where
  "undated_series = t1_tse_series\<lparr>series_id := ''6-undated'', date := None, time := None\<rparr>"

definition date_only_series :: seqinfo where
  "date_only_series = t1_tse_series\<lparr>series_id := ''7-date_only'', time := None\<rparr>"

text \<open>A gradient-echo field map whose image type has two entries.\<close>

definition gre_two_flags_series :: seqinfo where
  "gre_two_flags_series =
     t1_tse_series\<lparr>series_id := ''8-fieldmap'', protocol_name := ''gre_fieldmap'',
       series_description := ''gre_fieldmap'', sequence_name := ''*fm2d2r'',
       image_type := [''ORIGINAL'', ''PRIMARY'']\<rparr>"

text \<open>Diffusion series of thirty volumes and of two.\<close>

definition dwi_thirty_volumes :: seqinfo where
  "dwi_thirty_volumes =
     t1_tse_series\<lparr>series_id := ''15-dti'', protocol_name := ''dti_b1000'',
       series_description := ''dti_b1000'', sequence_name := ''*ep_b1000#1'',
       image_type := [''ORIGINAL'', ''PRIMARY'', ''DIFFUSION'', ''NONE''], dim4 := 30\<rparr>"

definition dwi_two_volumes :: seqinfo where
  "dwi_two_volumes = dwi_thirty_volumes\<lparr>series_id := ''12-dti_b0'', dim4 := 2\<rparr>"

text \<open>Maps for the cleanup: one assignment, and two.\<close>

definition one_entry :: "entry list" where
  "one_entry = [\<lparr>item = ''10-rest'', acq = None\<rparr>]"

definition two_entries :: "entry list" where
  "two_entries = [\<lparr>item = ''10-rest'', acq = None\<rparr>, \<lparr>item = ''11-rest'', acq = None\<rparr>]"

text \<open>
  \<open>hard_coded_pair\<close> holds a first-run key with its second-run sibling, and
  \<open>two_runs_and_scout\<close> a first-run key with two assignments and a key without run tag.
\<close>

text \<open>
  \<open>single_run_map\<close> holds a placeholder key and a first-run key with one assignment each
  and a placeholder key with two; \<open>double_tag_map\<close> holds one key with both run tags;
  \<open>two_runs_hard_coded\<close> holds a first-run key with two assignments and no second-run
  sibling.
\<close>

definition single_run_map :: info where
  "single_run_map =
     [(t1, one_entry),
      (new_key ''func'' ''task-rest_run-01_bold'' nii_and_dicom, one_entry),
      (dwi, two_entries)]"

definition hard_coded_pair :: info where
  "hard_coded_pair =
     [((''task-rest_run-01_bold'', nii_and_dicom, None), two_entries),
      ((''task-rest_run-02_bold'', nii_and_dicom, None), one_entry)]"

definition two_runs_and_scout :: info where
  "two_runs_and_scout =
     [((''task-rest_run-01_bold'', nii_and_dicom, None), two_entries),
      ((''acq-Scout_T2w'', dicom_only, None), one_entry)]"

definition double_tag_map :: info where
  "double_tag_map = [((''task-rest_run-01_run-{item:02d}_bold'', nii_and_dicom, None), one_entry)]"

definition two_runs_hard_coded :: info where
  "two_runs_hard_coded = [((''task-rest_run-01_bold'', nii_and_dicom, None), two_entries)]"

section \<open>Properties\<close>

subsection \<open>Task names\<close>

text \<open>
  C9. \<^verbatim>\<open>extract_task_name("REST bold")\<close> returns \<^verbatim>\<open>"rest"\<close>,
  \<^verbatim>\<open>extract_task_name("custom_task-nback_acq1")\<close> returns \<^verbatim>\<open>"nback"\<close> and
  \<^verbatim>\<open>extract_task_name("unlabeled scan")\<close> returns \<^verbatim>\<open>"TASK"\<close>.
\<close>

theorem extract_task_name_examples:
  "extract_task_name ''REST bold'' = Inr ''rest''
   \<and> extract_task_name ''custom_task-nback_acq1'' = Inr ''nback''
   \<and> extract_task_name ''unlabeled scan'' = Inr ''TASK''"
  by code_simp

text \<open>
  C4. The claim is that \<^verbatim>\<open>extract_task_name\<close> returns a non-empty string on every input.
  On a description that ends with the keyword, such as \<^verbatim>\<open>"fMRI task"\<close>, the text after
  \<^verbatim>\<open>task\<close> is empty and \<^verbatim>\<open>task_name[0]\<close> raises \<^verbatim>\<open>IndexError\<close>; on
  \<^verbatim>\<open>"task_"\<close> the function returns the empty string.
\<close>

theorem extract_task_name_bare_keyword:
  "extract_task_name ''fMRI task'' = Inl IndexError \<and> extract_task_name ''task_'' = Inr []"
  by code_simp

subsection \<open>The bucket-append helper\<close>

text \<open>
  C8. The claim is that a call with an empty key or without a map raises or signals an
  error instead of returning. The function returns in both cases: its value is the class
  object \<^verbatim>\<open>Exception\<close>, nothing is raised, and the map is as it was.
\<close>

theorem add_series_to_info_dict_returns_on_empty_key:
  "add_series_to_info_dict sid EmptyString (Some d) acq_label
     = Inr (ReturnedExceptionClass, Some d)
   \<and> add_series_to_info_dict sid mk None acq_label = Inr (ReturnedExceptionClass, None)"
  by (simp add: add_series_to_info_dict_def)

text \<open>
  With a key tuple and a dict the call falls off its end (it returns \<^verbatim>\<open>None\<close>), and the
  key then holds its former sequence, or the empty one for a new key, with the
  assignment at the end. This is the call that \<^verbatim>\<open>infotodict\<close> makes, written
  \<open>add_entry\<close> in its model.
\<close>

theorem add_series_to_info_dict_valid_key:
  "add_series_to_info_dict sid (KeyTuple k) (Some d) acq_label
     = Inr (ReturnedNone, Some (add_entry sid k d acq_label))
   \<and> map_of (add_entry sid k d acq_label) k
       = Some ((case map_of d k of None \<Rightarrow> [] | Some v \<Rightarrow> v)
                @ [if acq_label = [] then \<lparr>item = sid, acq = None\<rparr>
                   else \<lparr>item = sid, acq = Some acq_label\<rparr>])"
  by (simp add: add_series_to_info_dict_def add_entry_def update_conv' split: option.splits)

subsection \<open>Naming keys\<close>

text \<open>\<^verbatim>\<open>create_key\<close> raises \<^verbatim>\<open>ValueError\<close> for an empty \<^verbatim>\<open>subdir\<close>.\<close>

theorem create_key_rejects_empty_subdir:
  "create_key [] file_suffix outtype annotation_classes prefix = Inl ValueError"
  by (simp add: create_key_def)

lemma create_key_new_key:
  "subdir \<noteq> [] \<Longrightarrow> create_key subdir file_suffix outtype None [] = Inr (new_key subdir file_suffix outtype)"
  by (simp add: create_key_def new_key_def)

subsection \<open>The order of the series\<close>

text \<open>
  C10. The claim is that the output holds each input record once. Two records with the
  same date, time and series uid are each appended once for every occurrence of the uid
  in the sorted uid list, so the output holds each of them twice.
\<close>

theorem sort_repeats_series_with_equal_uid:
  "sort_seqinfo_by_series_date_time [same_uid_first, same_uid_second]
     = [same_uid_first, same_uid_second, same_uid_first, same_uid_second]"
  by code_simp

lemma append_by_uid_decomp:
  "\<exists>zs. append_by_uid dT sids acc = acc @ zs \<and> set zs \<subseteq> set dT"
proof (induction sids arbitrary: acc)
  case Nil
  then show ?case by simp
next
  case (Cons sid sids)
  obtain zs where zs: "append_by_uid dT sids (acc @ filter (\<lambda>ss. series_uid ss = Some sid) dT)
      = (acc @ filter (\<lambda>ss. series_uid ss = Some sid) dT) @ zs" "set zs \<subseteq> set dT"
    using Cons.IH by blast
  show ?case
  proof (intro exI conjI)
    show "append_by_uid dT (sid # sids) acc = acc @ (filter (\<lambda>ss. series_uid ss = Some sid) dT @ zs)"
      using zs(1) by simp
    show "set (filter (\<lambda>ss. series_uid ss = Some sid) dT @ zs) \<subseteq> set dT"
      using zs(2) by auto
  qed
qed

lemma append_missing_decomp:
  "\<exists>zs. append_missing xs acc = acc @ zs \<and> set zs = set xs - set acc"
proof (induction xs arbitrary: acc)
  case Nil
  then show ?case by simp
next
  case (Cons x xs)
  show ?case
  proof (cases "x \<in> set acc")
    case True
    then show ?thesis using Cons.IH [of acc] by auto
  next
    case False
    obtain zs where zs: "append_missing xs (acc @ [x]) = (acc @ [x]) @ zs"
      "set zs = set xs - set (acc @ [x])"
      using Cons.IH by blast
    show ?thesis
    proof (intro exI conjI)
      show "append_missing (x # xs) acc = acc @ (x # zs)" using False zs(1) by simp
      show "set (x # zs) = set (x # xs) - set acc" using False zs(2) by auto
    qed
  qed
qed

lemma set_append_missing: "set (append_missing xs acc) = set acc \<union> set xs"
proof -
  obtain zs where "append_missing xs acc = acc @ zs" and "set zs = set xs - set acc"
    using append_missing_decomp by blast
  then have "set (append_missing xs acc) = set acc \<union> (set xs - set acc)"
    by simp
  then show ?thesis by blast
qed

lemma sort_date_times_decomp:
  "\<exists>zs. sort_date_times dts seqinfo acc = acc @ zs
        \<and> (\<forall>z\<in>set zs. z \<in> set seqinfo \<and> (\<exists>dt\<in>set dts. date_time z = Some dt))"
proof (induction dts arbitrary: acc)
  case Nil
  then show ?case by simp
next
  case (Cons dt dts)
  define dT where "dT = filter (\<lambda>ss. date_time ss = Some dt) seqinfo"
  obtain us where us: "append_by_uid dT (sort (uids_of dT)) acc = acc @ us" "set us \<subseteq> set dT"
    using append_by_uid_decomp by blast
  obtain ms where ms: "append_missing dT (acc @ us) = (acc @ us) @ ms"
    "set ms = set dT - set (acc @ us)"
    using append_missing_decomp by blast
  obtain zs where zs: "sort_date_times dts seqinfo (acc @ us @ ms) = (acc @ us @ ms) @ zs"
    "\<forall>z\<in>set zs. z \<in> set seqinfo \<and> (\<exists>dt\<in>set dts. date_time z = Some dt)"
    using Cons.IH by blast
  have step: "sort_date_times (dt # dts) seqinfo acc = acc @ (us @ ms @ zs)"
    using us(1) ms(1) zs(1) by (simp add: dT_def [symmetric] Let_def)
  have "\<forall>z\<in>set (us @ ms). z \<in> set seqinfo \<and> date_time z = Some dt"
    using us(2) ms(2) by (auto simp: dT_def)
  then have "\<forall>z\<in>set (us @ ms @ zs). z \<in> set seqinfo \<and> (\<exists>d\<in>set (dt # dts). date_time z = Some d)"
    using zs(2) by auto
  with step show ?case by blast
qed

lemma sort_date_times_keeps: "set acc \<subseteq> set (sort_date_times dts seqinfo acc)"
  using sort_date_times_decomp [of dts seqinfo acc] by auto

lemma sort_date_times_complete:
  "s \<in> set seqinfo \<Longrightarrow> date_time s = Some dt \<Longrightarrow> dt \<in> set dts
     \<Longrightarrow> s \<in> set (sort_date_times dts seqinfo acc)"
proof (induction dts arbitrary: acc)
  case Nil
  then show ?case by simp
next
  case (Cons d dts)
  show ?case
  proof (cases "d = dt")
    case True
    define dT where "dT = filter (\<lambda>ss. date_time ss = Some d) seqinfo"
    have "s \<in> set dT" using Cons.prems True by (simp add: dT_def)
    then have "s \<in> set (append_missing dT (append_by_uid dT (sort (uids_of dT)) acc))"
      by (simp add: set_append_missing)
    then show ?thesis
      using sort_date_times_keeps by (auto simp: dT_def [symmetric] Let_def)
  next
    case False
    then have "dt \<in> set dts" using Cons.prems by simp
    then show ?thesis using Cons.IH Cons.prems by (simp add: Let_def)
  qed
qed

lemma set_map_filter: "set (List.map_filter f xs) = {y. \<exists>x\<in>set xs. f x = Some y}"
  by (induction xs) (auto simp: map_filter_simps split: option.splits)

lemma set_dateTimes: "set (dateTimes seqinfo) = {dt. \<exists>s\<in>set seqinfo. date_time s = Some dt}"
  by (simp add: dateTimes_def set_map_filter)

lemma sort_seqinfo_decomp:
  "\<exists>ds us. sort_seqinfo_by_series_date_time seqinfo = ds @ us
      \<and> (\<forall>d\<in>set ds. date_time d \<noteq> None) \<and> (\<forall>u\<in>set us. date_time u = None)"
proof -
  define ds where "ds = sort_date_times (dateTimes seqinfo) seqinfo []"
  obtain us where us: "append_missing seqinfo ds = ds @ us" "set us = set seqinfo - set ds"
    using append_missing_decomp by blast
  have dated: "\<forall>d\<in>set ds. date_time d \<noteq> None"
    using sort_date_times_decomp [of "dateTimes seqinfo" seqinfo "[]"] by (auto simp: ds_def)
  have "\<forall>u\<in>set us. date_time u = None"
  proof
    fix u assume u: "u \<in> set us"
    show "date_time u = None"
    proof (rule ccontr)
      assume "date_time u \<noteq> None"
      then obtain dt where dt: "date_time u = Some dt" by auto
      have "u \<in> set seqinfo" using u us(2) by simp
      then have "u \<in> set ds"
        unfolding ds_def using dt by (intro sort_date_times_complete [of u seqinfo dt]) (auto simp: set_dateTimes)
      then show False using u us(2) by simp
    qed
  qed
  with dated us(1) show ?thesis
    by (auto simp: sort_seqinfo_by_series_date_time_def ds_def)
qed


lemma removeAll_filter: "removeAll x (filter P xs) = filter (\<lambda>y. P y \<and> y \<noteq> x) xs"
  by (induction xs) auto

lemma append_missing_first_occurrences:
  "append_missing xs acc = acc @ first_occurrences (filter (\<lambda>x. x \<notin> set acc) xs)"
proof (induction xs arbitrary: acc)
  case Nil
  then show ?case by simp
next
  case (Cons x xs)
  show ?case
  proof (cases "x \<in> set acc")
    case True
    then show ?thesis using Cons.IH [of acc] by simp
  next
    case False
    have "filter (\<lambda>y. y \<notin> set (acc @ [x])) xs = filter (\<lambda>y. y \<notin> set acc \<and> y \<noteq> x) xs"
      by (rule filter_cong) auto
    then show ?thesis
      using False Cons.IH [of "acc @ [x]"] by (simp add: removeAll_filter)
  qed
qed

lemma set_sort_date_times:
  "set (sort_date_times (dateTimes seqinfo) seqinfo [])
     = {s \<in> set seqinfo. date_time s \<noteq> None}"
proof (intro set_eqI iffI)
  fix s assume "s \<in> set (sort_date_times (dateTimes seqinfo) seqinfo [])"
  moreover obtain zs where "sort_date_times (dateTimes seqinfo) seqinfo [] = [] @ zs"
    and "\<forall>z\<in>set zs. z \<in> set seqinfo \<and> (\<exists>dt\<in>set (dateTimes seqinfo). date_time z = Some dt)"
    using sort_date_times_decomp by blast
  ultimately show "s \<in> {s \<in> set seqinfo. date_time s \<noteq> None}" by auto
next
  fix s assume "s \<in> {s \<in> set seqinfo. date_time s \<noteq> None}"
  then obtain dt where "s \<in> set seqinfo" "date_time s = Some dt" by auto
  then show "s \<in> set (sort_date_times (dateTimes seqinfo) seqinfo [])"
    by (intro sort_date_times_complete [of s seqinfo dt]) (auto simp: set_dateTimes)
qed

lemma sort_seqinfo_parts:
  "sort_seqinfo_by_series_date_time seqinfo
     = sort_date_times (dateTimes seqinfo) seqinfo []
       @ first_occurrences (filter (\<lambda>s. date_time s = None) seqinfo)"
proof -
  have "filter (\<lambda>s. s \<notin> set (sort_date_times (dateTimes seqinfo) seqinfo [])) seqinfo
          = filter (\<lambda>s. date_time s = None) seqinfo"
    by (rule filter_cong) (simp_all add: set_sort_date_times)
  then show ?thesis
    by (simp add: sort_seqinfo_by_series_date_time_def append_missing_first_occurrences)
qed

text \<open>
  C6, amended. The claim puts a record with neither date nor time after every record
  with at least one of the two. The function sorts the records that have both a date and
  a time and appends the others. The output is the sorted group, which holds exactly the
  input records that have both (\<open>date_time\<close> is not \<open>None\<close>), followed by the input
  records that lack a date or a time, each once, in the order of their first occurrence
  in the input. So a record that lacks a date or a time comes after every record that
  has both.
\<close>

theorem series_without_date_time_come_last:
  "sort_seqinfo_by_series_date_time seqinfo
     = sort_date_times (dateTimes seqinfo) seqinfo []
       @ first_occurrences (filter (\<lambda>s. date_time s = None) seqinfo)
   \<and> set (sort_date_times (dateTimes seqinfo) seqinfo [])
       = {s \<in> set seqinfo. date_time s \<noteq> None}
   \<and> (\<forall>i j. i < length (sort_seqinfo_by_series_date_time seqinfo)
          \<and> j < length (sort_seqinfo_by_series_date_time seqinfo)
          \<and> date_time (sort_seqinfo_by_series_date_time seqinfo ! i) = None
          \<and> date_time (sort_seqinfo_by_series_date_time seqinfo ! j) \<noteq> None
          \<longrightarrow> j < i)"
proof (intro conjI allI impI)
  show "sort_seqinfo_by_series_date_time seqinfo
     = sort_date_times (dateTimes seqinfo) seqinfo []
       @ first_occurrences (filter (\<lambda>s. date_time s = None) seqinfo)"
    by (rule sort_seqinfo_parts)
  show "set (sort_date_times (dateTimes seqinfo) seqinfo [])
       = {s \<in> set seqinfo. date_time s \<noteq> None}"
    by (rule set_sort_date_times)
next
  fix i j
  define out where "out = sort_seqinfo_by_series_date_time seqinfo"
  assume "i < length (sort_seqinfo_by_series_date_time seqinfo)
          \<and> j < length (sort_seqinfo_by_series_date_time seqinfo)
          \<and> date_time (sort_seqinfo_by_series_date_time seqinfo ! i) = None
          \<and> date_time (sort_seqinfo_by_series_date_time seqinfo ! j) \<noteq> None"
  then have a: "i < length out" "j < length out" "date_time (out ! i) = None"
    "date_time (out ! j) \<noteq> None"
    by (simp_all add: out_def)
  obtain ds us where d: "out = ds @ us" "\<forall>d\<in>set ds. date_time d \<noteq> None"
    "\<forall>u\<in>set us. date_time u = None"
    using sort_seqinfo_decomp out_def by blast
  have i: "length ds \<le> i"
  proof (rule ccontr)
    assume "\<not> length ds \<le> i"
    then have "out ! i \<in> set ds" by (simp add: d(1) nth_append)
    then show False using d(2) a(3) by auto
  qed
  have "j < length ds"
  proof (rule ccontr)
    assume n: "\<not> j < length ds"
    then have "out ! j = us ! (j - length ds)" by (simp add: d(1) nth_append)
    moreover have "j - length ds < length us" using n a(2) d(1) by simp
    ultimately have "out ! j \<in> set us" by simp
    then show False using d(3) a(4) by auto
  qed
  with i show "j < i" by simp
qed

text \<open>
  The theorem at an undated series given twice, before and after a dated one: the dated
  series comes first and the undated one follows, once.
\<close>

theorem series_without_date_time_come_last_witness:
  "sort_seqinfo_by_series_date_time [undated_series, t1_tse_series, undated_series]
     = [t1_tse_series, undated_series]
   \<and> sort_date_times (dateTimes [undated_series, t1_tse_series, undated_series])
        [undated_series, t1_tse_series, undated_series] [] = [t1_tse_series]
   \<and> first_occurrences
        (filter (\<lambda>s. date_time s = None) [undated_series, t1_tse_series, undated_series])
       = [undated_series]
   \<and> date_time ([t1_tse_series, undated_series] ! 1) = None
   \<and> date_time ([t1_tse_series, undated_series] ! 0) \<noteq> None \<and> (0::nat) < 1"
proof -
  let ?xs = "[undated_series, t1_tse_series, undated_series]"
  have out: "sort_seqinfo_by_series_date_time ?xs = [t1_tse_series, undated_series]"
    by code_simp
  have ds: "sort_date_times (dateTimes ?xs) ?xs [] = [t1_tse_series]"
    by code_simp
  have us: "first_occurrences (filter (\<lambda>s. date_time s = None) ?xs) = [undated_series]"
    by code_simp
  have a: "date_time ([t1_tse_series, undated_series] ! 1) = None" by code_simp
  have b: "date_time ([t1_tse_series, undated_series] ! 0) \<noteq> None" by code_simp
  have "(0::nat) < 1"
    using series_without_date_time_come_last [of ?xs] out a b by simp
  with out ds us a b show ?thesis by simp
qed

text \<open>
  C6 as stated fails: a series with neither date nor time that is given before a series
  with a date and no time stays before it.
\<close>

theorem undated_series_before_date_only_series:
  "sort_seqinfo_by_series_date_time [undated_series, date_only_series]
     = [undated_series, date_only_series]
   \<and> date undated_series = None \<and> time undated_series = None
   \<and> date date_only_series = Some ''20210209''"
  by code_simp

subsection \<open>The cleanup pass\<close>

lemma map_of_rename_key:
  "map_of (rename_key k t v info) = ((map_of info)(k := None))((t, snd k) \<mapsto> v)"
  by (simp add: rename_key_def update_conv' delete_conv')

lemma templates_conv: "(\<lambda>kk. fst (fst kk)) ` set info = fst ` dom (map_of info)"
  by (simp add: dom_map_of_conv_image_fst image_image)

lemma inert_simple: "inert t \<Longrightarrow> simple_template t"
  by (simp add: inert_def simple_template_def)

lemma cleanup_key_settled:
  "map_of info k = Some v \<Longrightarrow> settled_key info k \<Longrightarrow> cleanup_key k info = Inr info"
  by (auto simp: cleanup_key_def settled_key_def templates_conv)

lemma cleanup_keys_settled:
  "set ks \<subseteq> dom (map_of info) \<Longrightarrow> \<forall>k\<in>set ks. settled_key info k
     \<Longrightarrow> cleanup_keys ks info = Inr info"
proof (induction ks)
  case Nil
  then show ?case by simp
next
  case (Cons k ks)
  then obtain v where "map_of info k = Some v" by auto
  then have "cleanup_key k info = Inr info"
    using Cons.prems by (simp add: cleanup_key_settled)
  then show ?case using Cons by simp
qed

lemma cleanup_key_cases:
  assumes "map_of info k = Some v"
  shows "(cleanup_key k info = Inr info \<and> settled_key info k)
         \<or> (\<exists>t. cleanup_key k info = Inr (rename_key k t v info) \<and> \<not> inert (fst k)
                 \<and> (simple_template (fst k) \<longrightarrow> inert t))"
proof (cases "length v = 1 \<and> str_contains run_placeholder (fst k)")
  case True
  then have "cleanup_key k info = Inr (rename_key k (str_replace run_placeholder [] (fst k)) v info)"
    using assms by (simp add: cleanup_key_def)
  moreover have "\<not> inert (fst k)" using True by (simp add: inert_def)
  moreover have "simple_template (fst k) \<longrightarrow> inert (str_replace run_placeholder [] (fst k))"
    using True by (simp add: simple_template_def)
  ultimately show ?thesis by blast
next
  case no_placeholder: False
  show ?thesis
  proof (cases "str_contains run_01 (fst k)
                \<and> str_replace run_01 run_02 (fst k) \<notin> fst ` dom (map_of info)")
    case True
    then have "cleanup_key k info = Inr (rename_key k (str_replace run_01 [] (fst k)) v info)"
      using assms no_placeholder by (auto simp: cleanup_key_def templates_conv)
    moreover have "\<not> inert (fst k)" using True by (simp add: inert_def)
    moreover have "simple_template (fst k) \<longrightarrow> inert (str_replace run_01 [] (fst k))"
      using True by (simp add: simple_template_def)
    ultimately show ?thesis by blast
  next
    case False
    then have "cleanup_key k info = Inr info"
      using assms no_placeholder by (auto simp: cleanup_key_def templates_conv)
    moreover have "settled_key info k"
      using assms no_placeholder False by (auto simp: settled_key_def)
    ultimately show ?thesis by blast
  qed
qed

lemma rename_keeps_inv:
  assumes inv: "cleanup_inv (k # ks) info"
    and v: "map_of info k = Some v"
    and k: "\<not> inert (fst k)" and t: "inert t"
  shows "cleanup_inv ks (rename_key k t v info)"
proof -
  define info' where "info' = rename_key k t v info"
  define k' where "k' = (t, snd k)"
  have m': "map_of info' = ((map_of info)(k := None))(k' \<mapsto> v)"
    by (simp add: info'_def k'_def map_of_rename_key)
  have neq: "k' \<noteq> k"
  proof
    assume "k' = k"
    then have "fst k = t" by (metis k'_def fst_conv)
    then show False using k t by simp
  qed
  have dom': "dom (map_of info') = insert k' (dom (map_of info) - {k})"
    by (auto simp: m')
  have d: "distinct ks" and notin: "k \<notin> set ks" and sub: "set ks \<subseteq> dom (map_of info)"
    and simple: "\<forall>q\<in>dom (map_of info). simple_template (fst q)"
    and settled: "\<forall>q\<in>dom (map_of info) - set (k # ks). settled_key info q"
    using inv by (auto simp: cleanup_inv_def)
  have 1: "set ks \<subseteq> dom (map_of info')"
    using sub notin by (auto simp: dom')
  have 2: "\<forall>q\<in>dom (map_of info'). simple_template (fst q)"
    using simple t by (auto simp: dom' k'_def inert_simple)
  have 3: "settled_key info' q" if q: "q \<in> dom (map_of info') - set ks" for q
  proof (cases "q = k'")
    case True
    then show ?thesis using t by (simp add: settled_key_def m' k'_def inert_def)
  next
    case False
    then have qd: "q \<in> dom (map_of info)" and qk: "q \<noteq> k" and qks: "q \<notin> set ks"
      using q by (auto simp: dom')
    then have sq: "settled_key info q" using settled by simp
    obtain w where w: "map_of info q = Some w" using qd by auto
    have w': "map_of info' q = Some w" using w False qk by (simp add: m')
    have "str_replace run_01 run_02 (fst q) \<in> fst ` dom (map_of info')"
      if has: "str_contains run_01 (fst q)"
    proof -
      have "str_replace run_01 run_02 (fst q) \<in> fst ` dom (map_of info)"
        using sq w has by (simp add: settled_key_def)
      then obtain q2 where q2: "q2 \<in> dom (map_of info)" "fst q2 = str_replace run_01 run_02 (fst q)"
        by (metis imageE)
      have "inert (fst q2)"
        using simple qd has q2(2) by (auto simp: simple_template_def)
      then have "q2 \<noteq> k" using k by blast
      then have "q2 \<in> dom (map_of info')" using q2(1) by (simp add: dom')
      then show ?thesis using q2(2) by (metis imageI)
    qed
    then show ?thesis using sq w w' by (simp add: settled_key_def)
  qed
  show ?thesis
    unfolding info'_def [symmetric] cleanup_inv_def using d 1 2 3 by blast
qed

lemma cleanup_inv_step:
  assumes "cleanup_inv (k # ks) info"
  shows "\<exists>info'. cleanup_key k info = Inr info' \<and> cleanup_inv ks info'"
proof -
  obtain v where v: "map_of info k = Some v"
    using assms by (auto simp: cleanup_inv_def)
  have simple: "simple_template (fst k)"
    using assms v by (auto simp: cleanup_inv_def)
  consider (same) "cleanup_key k info = Inr info" "settled_key info k"
    | (renamed) t where "cleanup_key k info = Inr (rename_key k t v info)" "\<not> inert (fst k)" "inert t"
    using cleanup_key_cases [OF v] simple by blast
  then show ?thesis
  proof cases
    case same
    have "cleanup_inv ks info"
      using assms same(2) by (auto simp: cleanup_inv_def)
    with same(1) show ?thesis by blast
  next
    case renamed
    then show ?thesis using rename_keeps_inv [OF assms v renamed(2,3)] by blast
  qed
qed

lemma cleanup_inv_loop:
  "cleanup_inv ks info \<Longrightarrow> \<exists>info'. cleanup_keys ks info = Inr info' \<and> cleanup_inv [] info'"
proof (induction ks arbitrary: info)
  case Nil
  then show ?case by simp
next
  case (Cons k ks)
  then obtain info1 where "cleanup_key k info = Inr info1" "cleanup_inv ks info1"
    using cleanup_inv_step by blast
  then show ?case using Cons.IH by auto
qed

text \<open>
  C3, amended. On a dict whose key templates are simple, the cleanup returns, and the
  cleanup of its result returns that result: no key and no value changes.
\<close>

theorem cleanup_idempotent_on_simple_templates:
  assumes "distinct (map fst M)" and "\<forall>k\<in>set (map fst M). simple_template (fst k)"
  shows "\<exists>M1. clean_up_unneeded_tags_from_info M = Inr M1
              \<and> clean_up_unneeded_tags_from_info M1 = Inr M1"
proof -
  have "cleanup_inv (map fst M) M"
    using assms by (simp add: cleanup_inv_def dom_map_of_conv_image_fst)
  then obtain M1 where M1: "cleanup_keys (map fst M) M = Inr M1" "cleanup_inv [] M1"
    using cleanup_inv_loop by blast
  have "cleanup_keys (map fst M1) M1 = Inr M1"
    using M1(2) by (intro cleanup_keys_settled) (auto simp: cleanup_inv_def dom_map_of_conv_image_fst)
  with M1(1) show ?thesis by (simp add: clean_up_unneeded_tags_from_info_def)
qed


text \<open>The theorem at \<open>single_run_map\<close>.\<close>

theorem cleanup_idempotent_on_simple_templates_witness:
  "distinct (map fst single_run_map)
   \<and> simple_template (fst t1) \<and> simple_template ''task-rest_run-01_bold''
   \<and> simple_template (fst dwi)
   \<and> (\<exists>M1. clean_up_unneeded_tags_from_info single_run_map = Inr M1
             \<and> clean_up_unneeded_tags_from_info M1 = Inr M1)"
proof -
  have d: "distinct (map fst single_run_map)" by code_simp
  have s: "\<forall>k\<in>set (map fst single_run_map). simple_template (fst k)" by code_simp
  have "simple_template (fst t1)" "simple_template ''task-rest_run-01_bold''"
    "simple_template (fst dwi)"
    by code_simp+
  with d cleanup_idempotent_on_simple_templates [OF d s] show ?thesis by simp
qed

text \<open>
  C3 as stated fails: on a key with \<^verbatim>\<open>_run-01\<close> and the placeholder, the first cleanup
  erases the placeholder and the second erases \<^verbatim>\<open>_run-01\<close>.
\<close>

theorem cleanup_twice_differs_on_double_tag:
  "clean_up_unneeded_tags_from_info double_tag_map
     = Inr [((''task-rest_run-01_bold'', nii_and_dicom, None), one_entry)]
   \<and> clean_up_unneeded_tags_from_info
         [((''task-rest_run-01_bold'', nii_and_dicom, None), one_entry)]
       = Inr [((''task-rest_bold'', nii_and_dicom, None), one_entry)]"
  by code_simp

lemma cleanup_key_result:
  assumes "map_of info q = Some w"
  shows "cleanup_key q info = Inr info
         \<or> cleanup_key q info = Inr (rename_key q (str_replace run_placeholder [] (fst q)) w info)
             \<and> length w = 1
         \<or> cleanup_key q info = Inr (rename_key q (str_replace run_01 [] (fst q)) w info)
             \<and> str_contains run_01 (fst q)"
  using assms by (auto simp: cleanup_key_def Let_def)

lemma dom_rename_key:
  "dom (map_of (rename_key q t w info)) = insert (t, snd q) (dom (map_of info) - {q})"
  by (auto simp: map_of_rename_key)

lemma rename_key_keeps_rest:
  "set ks \<subseteq> dom (map_of info) - {q} \<Longrightarrow> set ks \<subseteq> dom (map_of (rename_key q t w info))"
  by (simp only: dom_rename_key) blast

lemma cleanup_keys_total:
  "distinct ks \<Longrightarrow> set ks \<subseteq> dom (map_of info) \<Longrightarrow> \<exists>info'. cleanup_keys ks info = Inr info'"
proof (induction ks arbitrary: info)
  case Nil
  then show ?case by simp
next
  case (Cons q ks)
  then obtain w where w: "map_of info q = Some w" by auto
  have sub: "set ks \<subseteq> dom (map_of info) - {q}"
    using Cons.prems by auto
  obtain info1 where 1: "cleanup_key q info = Inr info1"
    and 2: "info1 = info \<or> (\<exists>t. info1 = rename_key q t w info)"
    using cleanup_key_result [OF w] by auto
  have "set ks \<subseteq> dom (map_of info1)"
    using 2
  proof (elim disjE exE)
    assume "info1 = info"
    then show ?thesis using sub by blast
  next
    fix t assume "info1 = rename_key q t w info"
    then show ?thesis using rename_key_keeps_rest [OF sub] by simp
  qed
  moreover have "distinct ks" using Cons.prems by simp
  ultimately obtain info' where "cleanup_keys ks info1 = Inr info'"
    using Cons.IH by blast
  with 1 show ?case by simp
qed

lemma clean_up_total:
  "distinct (map fst info) \<Longrightarrow> \<exists>info'. clean_up_unneeded_tags_from_info info = Inr info'"
  unfolding clean_up_unneeded_tags_from_info_def
  by (rule cleanup_keys_total) (simp_all add: dom_map_of_conv_image_fst)

lemma cleanup_keys_keeps:
  assumes "distinct ks" and "set ks \<subseteq> dom (map_of info)"
    and "map_of info k = Some v" and "length v \<noteq> 1" and "\<not> str_contains run_01 (fst k)"
    and "\<forall>q\<in>set ks. q \<noteq> k \<longrightarrow> (str_replace run_placeholder [] (fst q), snd q) \<noteq> k
                                  \<and> (str_replace run_01 [] (fst q), snd q) \<noteq> k"
  shows "\<exists>info'. cleanup_keys ks info = Inr info' \<and> map_of info' k = Some v"
  using assms
proof (induction ks arbitrary: info)
  case Nil
  then show ?case by simp
next
  case (Cons q ks)
  obtain w where w: "map_of info q = Some w" using Cons.prems(2) by auto
  have "\<exists>info1. cleanup_key q info = Inr info1 \<and> map_of info1 k = Some v
                 \<and> set ks \<subseteq> dom (map_of info1)"
  proof (cases "q = k")
    case True
    then have "cleanup_key q info = Inr info"
      using Cons.prems(3,4,5) by (simp add: cleanup_key_def)
    then show ?thesis using Cons.prems(2,3) by simp
  next
    case False
    then have targets: "(str_replace run_placeholder [] (fst q), snd q) \<noteq> k"
      "(str_replace run_01 [] (fst q), snd q) \<noteq> k"
      using Cons.prems(6) by simp_all
    have sub: "set ks \<subseteq> dom (map_of info) - {q}"
      using Cons.prems(1,2) by auto
    from cleanup_key_result [OF w] show ?thesis
    proof (elim disjE conjE)
      assume "cleanup_key q info = Inr info"
      then show ?thesis using Cons.prems(3) sub by auto
    next
      assume r: "cleanup_key q info
                   = Inr (rename_key q (str_replace run_placeholder [] (fst q)) w info)"
      have "map_of (rename_key q (str_replace run_placeholder [] (fst q)) w info) k = Some v"
        using False targets(1) Cons.prems(3) by (simp add: map_of_rename_key)
      then show ?thesis using r rename_key_keeps_rest [OF sub] by simp
    next
      assume r: "cleanup_key q info = Inr (rename_key q (str_replace run_01 [] (fst q)) w info)"
      have "map_of (rename_key q (str_replace run_01 [] (fst q)) w info) k = Some v"
        using False targets(2) Cons.prems(3) by (simp add: map_of_rename_key)
      then show ?thesis using r rename_key_keeps_rest [OF sub] by simp
    qed
  qed
  then obtain info1 where 1: "cleanup_key q info = Inr info1" "map_of info1 k = Some v"
    "set ks \<subseteq> dom (map_of info1)"
    by blast
  have "\<exists>info'. cleanup_keys ks info1 = Inr info' \<and> map_of info' k = Some v"
    using Cons.prems(1,4,5,6) 1(2,3) by (intro Cons.IH) auto
  with 1(1) show ?case by simp
qed


lemma length_str_replace_le: "length (str_replace old [] s) \<le> length s"
proof (induction "length s" arbitrary: s rule: less_induct)
  case less
  show ?case
  proof (cases s)
    case Nil
    then show ?thesis by simp
  next
    case (Cons c cs)
    show ?thesis
    proof (cases "old \<noteq> [] \<and> startswith (c # cs) old")
      case True
      then have "length (drop (length old) (c # cs)) < length s"
        using Cons by (cases old) simp_all
      then have "length (str_replace old [] (drop (length old) (c # cs)))
                   \<le> length (drop (length old) (c # cs))"
        by (rule less)
      then show ?thesis using True Cons by simp
    next
      case False
      have "length (str_replace old [] cs) \<le> length cs"
        using less [of cs] Cons by simp
      then show ?thesis using False Cons by auto
    qed
  qed
qed

lemma length_str_replace_less:
  "old \<noteq> [] \<Longrightarrow> str_contains old s \<Longrightarrow> length (str_replace old [] s) < length s"
proof (induction s)
  case Nil
  then show ?case by simp
next
  case (Cons c cs)
  show ?case
  proof (cases "startswith (c # cs) old")
    case True
    have le: "length (str_replace old [] (drop (length old) (c # cs)))
            \<le> length (drop (length old) (c # cs))"
      by (rule length_str_replace_le)
    have lt: "length (drop (length old) (c # cs)) < length (c # cs)"
      using Cons.prems(1) by (cases old) simp_all
    have eq: "str_replace old [] (c # cs) = str_replace old [] (drop (length old) (c # cs))"
      using True Cons.prems(1) by simp
    show ?thesis unfolding eq using le lt by (rule le_less_trans)
  next
    case False
    then have "str_contains old cs" using Cons.prems(2) by simp
    then have "length (str_replace old [] cs) < length cs"
      using Cons.IH Cons.prems(1) by simp
    then show ?thesis using False by simp
  qed
qed

lemma str_replace_changes:
  "old \<noteq> [] \<Longrightarrow> str_contains old s \<Longrightarrow> str_replace old [] s \<noteq> s"
  using length_str_replace_less [of old s] by auto

lemma cleanup_keys_append:
  "cleanup_keys (xs @ ys) info
     = (case cleanup_keys xs info of Inl e \<Rightarrow> Inl e | Inr info' \<Rightarrow> cleanup_keys ys info')"
  by (induction xs arbitrary: info) (auto split: sum.splits)

lemma cleanup_keys_inert:
  "set ks \<subseteq> dom (map_of info) \<Longrightarrow> \<forall>q\<in>set ks. inert (fst q)
     \<Longrightarrow> cleanup_keys ks info = Inr info"
proof (rule cleanup_keys_settled)
  assume sub: "set ks \<subseteq> dom (map_of info)" and i: "\<forall>q\<in>set ks. inert (fst q)"
  show "set ks \<subseteq> dom (map_of info)" by (rule sub)
  show "\<forall>k\<in>set ks. settled_key info k"
    using i by (auto simp: settled_key_def inert_def split: option.splits)
qed

lemma clean_up_one_key:
  assumes d: "distinct (map fst M)" and m: "map_of M k = Some v"
    and others: "\<forall>q\<in>set (map fst M). q \<noteq> k \<longrightarrow> inert (fst q)"
  shows "clean_up_unneeded_tags_from_info M = cleanup_key k M"
proof -
  have "k \<in> set (map fst M)"
    using m by (metis map_of_eq_None_iff option.distinct(1) set_map)
  then obtain pre post where split: "map fst M = pre @ k # post"
    by (meson split_list)
  have kpre: "k \<notin> set pre" and kpost: "k \<notin> set post"
    using d unfolding split by auto
  have pre: "\<forall>q\<in>set pre. inert (fst q)" and post: "\<forall>q\<in>set post. inert (fst q)"
    using others kpre kpost unfolding split by auto
  have dom: "dom (map_of M) = set (pre @ k # post)"
    unfolding split [symmetric] by (simp add: dom_map_of_conv_image_fst)
  have 1: "cleanup_keys pre M = Inr M"
    using pre dom by (intro cleanup_keys_inert) auto
  have 2: "cleanup_keys post M1 = Inr M1" if "cleanup_key k M = Inr M1" for M1
  proof -
    have sub: "set post \<subseteq> dom (map_of M) - {k}"
      using dom kpost by auto
    have "M1 = M \<or> (\<exists>t. M1 = rename_key k t v M)"
      using cleanup_key_result [OF m] that by auto
    then have "set post \<subseteq> dom (map_of M1)"
    proof (elim disjE exE)
      assume "M1 = M"
      then show ?thesis using sub by auto
    next
      fix t assume "M1 = rename_key k t v M"
      then show ?thesis using rename_key_keeps_rest [OF sub] by simp
    qed
    then show ?thesis using post by (rule cleanup_keys_inert)
  qed
  have "cleanup_keys (pre @ k # post) M = cleanup_key k M"
    using 1 2 by (simp add: cleanup_keys_append split: sum.splits)
  then show ?thesis
    by (simp add: clean_up_unneeded_tags_from_info_def split)
qed

lemma moved_to_rename_key:
  assumes "map_of M k = Some v" and "t \<noteq> fst k"
  shows "moved_to M (rename_key k t v M) k (t, snd k)"
proof -
  have "(t, snd k) \<noteq> k" using assms(2) by (metis fst_conv)
  then show ?thesis
    using assms(1) by (simp add: moved_to_def map_of_rename_key)
qed

lemma cleanup_key_moves:
  assumes m: "map_of M k = Some v"
  shows "if length v = 1 \<and> str_contains run_placeholder (fst k)
         then \<exists>M'. cleanup_key k M = Inr M'
                \<and> moved_to M M' k (str_replace run_placeholder [] (fst k), snd k)
         else if str_contains run_01 (fst k)
                 \<and> str_replace run_01 run_02 (fst k) \<notin> fst ` fst ` set M
         then \<exists>M'. cleanup_key k M = Inr M'
                \<and> moved_to M M' k (str_replace run_01 [] (fst k), snd k)
         else cleanup_key k M = Inr M"
proof -
  have t: "(\<lambda>kk. fst (fst kk)) ` set M = fst ` fst ` set M"
    by (simp add: image_image)
  have p: "str_contains run_placeholder (fst k)
             \<Longrightarrow> str_replace run_placeholder [] (fst k) \<noteq> fst k"
    by (rule str_replace_changes) (simp_all add: run_placeholder_def)
  have r: "str_contains run_01 (fst k) \<Longrightarrow> str_replace run_01 [] (fst k) \<noteq> fst k"
    by (rule str_replace_changes) (simp_all add: run_01_def)
  show ?thesis
    using m p r moved_to_rename_key [OF m]
    by (auto simp: cleanup_key_def t Let_def)
qed

text \<open>
  C5, amended. Only the placeholder rewrite needs exactly one assignment; the
  \<^verbatim>\<open>_run-01\<close> rewrite is the \<^verbatim>\<open>elif\<close> branch and tests the \<^verbatim>\<open>_run-02\<close> sibling, not
  the length. For a key \<open>k\<close> of a dict \<open>M\<close>, with value \<open>v\<close>, the cleanup returns a map
  \<open>M'\<close> such that:
  \<^item> if \<open>v\<close> has a length other than one and the template of \<open>k\<close> has no \<^verbatim>\<open>_run-01\<close>,
    then \<open>k\<close> keeps its value, provided no other key is rewritten onto \<open>k\<close>;
  \<^item> if no other key of \<open>M\<close> holds a run placeholder or \<^verbatim>\<open>_run-01\<close>, then: with one
    assignment and a placeholder, \<open>k\<close> is replaced by the key without the placeholder;
    otherwise, with \<^verbatim>\<open>_run-01\<close> in the template and no key of \<open>M\<close> with the
    \<^verbatim>\<open>_run-02\<close> template, \<open>k\<close> is replaced by the key without \<^verbatim>\<open>_run-01\<close>, whatever
    the length of \<open>v\<close>; otherwise \<open>M'\<close> is \<open>M\<close>.
\<close>

theorem cleanup_rewrite_conditions:
  assumes "distinct (map fst M)" and "map_of M k = Some v"
  shows "\<exists>M'. clean_up_unneeded_tags_from_info M = Inr M'
           \<and> (length v \<noteq> 1 \<and> \<not> str_contains run_01 (fst k)
               \<and> (\<forall>q\<in>set (map fst M). q \<noteq> k \<longrightarrow>
                     (str_replace run_placeholder [] (fst q), snd q) \<noteq> k
                     \<and> (str_replace run_01 [] (fst q), snd q) \<noteq> k)
               \<longrightarrow> map_of M' k = Some v)
           \<and> ((\<forall>q\<in>set (map fst M). q \<noteq> k \<longrightarrow> inert (fst q)) \<longrightarrow>
                (if length v = 1 \<and> str_contains run_placeholder (fst k)
                 then moved_to M M' k (str_replace run_placeholder [] (fst k), snd k)
                 else if str_contains run_01 (fst k)
                         \<and> str_replace run_01 run_02 (fst k) \<notin> fst ` fst ` set M
                 then moved_to M M' k (str_replace run_01 [] (fst k), snd k)
                 else M' = M))"
proof -
  obtain M' where M': "clean_up_unneeded_tags_from_info M = Inr M'"
    using clean_up_total [OF assms(1)] ..
  have keeps: "map_of M' k = Some v"
    if "length v \<noteq> 1" "\<not> str_contains run_01 (fst k)"
      "\<forall>q\<in>set (map fst M). q \<noteq> k \<longrightarrow>
          (str_replace run_placeholder [] (fst q), snd q) \<noteq> k
          \<and> (str_replace run_01 [] (fst q), snd q) \<noteq> k"
  proof -
    have "\<exists>M1. cleanup_keys (map fst M) M = Inr M1 \<and> map_of M1 k = Some v"
      using assms that by (intro cleanup_keys_keeps) (simp_all add: dom_map_of_conv_image_fst)
    then show ?thesis using M' by (auto simp: clean_up_unneeded_tags_from_info_def)
  qed
  have one: "if length v = 1 \<and> str_contains run_placeholder (fst k)
             then moved_to M M' k (str_replace run_placeholder [] (fst k), snd k)
             else if str_contains run_01 (fst k)
                     \<and> str_replace run_01 run_02 (fst k) \<notin> fst ` fst ` set M
             then moved_to M M' k (str_replace run_01 [] (fst k), snd k)
             else M' = M"
    if "\<forall>q\<in>set (map fst M). q \<noteq> k \<longrightarrow> inert (fst q)"
  proof -
    have "cleanup_key k M = Inr M'"
      using clean_up_one_key [OF assms that] M' by simp
    then show ?thesis
      using cleanup_key_moves [OF assms(2)] by (auto split: if_splits)
  qed
  show ?thesis using M' keeps one by blast
qed

text \<open>
  The theorem at three maps: the first-run key of \<open>hard_coded_pair\<close> has its sibling and
  stays, the first-run key of \<open>two_runs_and_scout\<close> has two assignments and no sibling
  and loses \<^verbatim>\<open>_run-01\<close>, and the key \<open>dwi\<close> of \<open>single_run_map\<close> has two assignments and
  keeps its value while the other two keys are rewritten.
\<close>

theorem cleanup_rewrite_conditions_witness:
  "distinct (map fst hard_coded_pair) \<and> distinct (map fst two_runs_and_scout)
   \<and> distinct (map fst single_run_map)
   \<and> map_of hard_coded_pair (''task-rest_run-01_bold'', nii_and_dicom, None) = Some two_entries
   \<and> map_of two_runs_and_scout (''task-rest_run-01_bold'', nii_and_dicom, None)
       = Some two_entries
   \<and> map_of single_run_map dwi = Some two_entries
   \<and> clean_up_unneeded_tags_from_info hard_coded_pair = Inr hard_coded_pair
   \<and> (\<exists>M'. clean_up_unneeded_tags_from_info two_runs_and_scout = Inr M'
         \<and> moved_to two_runs_and_scout M' (''task-rest_run-01_bold'', nii_and_dicom, None)
              (''task-rest_bold'', nii_and_dicom, None))
   \<and> (\<exists>M'. clean_up_unneeded_tags_from_info single_run_map = Inr M'
         \<and> map_of M' dwi = Some two_entries)"
proof -
  let ?k = "(''task-rest_run-01_bold'', nii_and_dicom, None) :: key"
  have d: "distinct (map fst hard_coded_pair)" "distinct (map fst two_runs_and_scout)"
    "distinct (map fst single_run_map)"
    by code_simp+
  have m: "map_of hard_coded_pair ?k = Some two_entries"
    "map_of two_runs_and_scout ?k = Some two_entries"
    "map_of single_run_map dwi = Some two_entries"
    by code_simp+
  have others: "\<forall>q\<in>set (map fst hard_coded_pair). q \<noteq> ?k \<longrightarrow> inert (fst q)"
    "\<forall>q\<in>set (map fst two_runs_and_scout). q \<noteq> ?k \<longrightarrow> inert (fst q)"
    by code_simp+
  have no_placeholder: "\<not> (length two_entries = 1 \<and> str_contains run_placeholder (fst ?k))"
    by code_simp
  have sibling: "\<not> (str_contains run_01 (fst ?k)
                      \<and> str_replace run_01 run_02 (fst ?k) \<notin> fst ` fst ` set hard_coded_pair)"
    by code_simp
  have no_sibling: "str_contains run_01 (fst ?k)
                      \<and> str_replace run_01 run_02 (fst ?k) \<notin> fst ` fst ` set two_runs_and_scout"
    by code_simp
  have target: "(str_replace run_01 [] (fst ?k), snd ?k) = (''task-rest_bold'', nii_and_dicom, None)"
    by code_simp
  have kept: "length two_entries \<noteq> 1 \<and> \<not> str_contains run_01 (fst dwi)
               \<and> (\<forall>q\<in>set (map fst single_run_map). q \<noteq> dwi \<longrightarrow>
                     (str_replace run_placeholder [] (fst q), snd q) \<noteq> dwi
                     \<and> (str_replace run_01 [] (fst q), snd q) \<noteq> dwi)"
    by code_simp
  have a: "clean_up_unneeded_tags_from_info hard_coded_pair = Inr hard_coded_pair"
  proof -
    from cleanup_rewrite_conditions [OF d(1) m(1)]
    obtain M' where M': "clean_up_unneeded_tags_from_info hard_coded_pair = Inr M'"
      and one: "(\<forall>q\<in>set (map fst hard_coded_pair). q \<noteq> ?k \<longrightarrow> inert (fst q)) \<longrightarrow>
                (if length two_entries = 1 \<and> str_contains run_placeholder (fst ?k)
                 then moved_to hard_coded_pair M' ?k
                        (str_replace run_placeholder [] (fst ?k), snd ?k)
                 else if str_contains run_01 (fst ?k)
                         \<and> str_replace run_01 run_02 (fst ?k) \<notin> fst ` fst ` set hard_coded_pair
                 then moved_to hard_coded_pair M' ?k (str_replace run_01 [] (fst ?k), snd ?k)
                 else M' = hard_coded_pair)"
      by (elim exE conjE)
    from one others(1) have "M' = hard_coded_pair"
      by (simp only: no_placeholder sibling if_False simp_thms)
    with M' show ?thesis by (simp only:)
  qed
  have b: "\<exists>M'. clean_up_unneeded_tags_from_info two_runs_and_scout = Inr M'
         \<and> moved_to two_runs_and_scout M' ?k (''task-rest_bold'', nii_and_dicom, None)"
  proof -
    from cleanup_rewrite_conditions [OF d(2) m(2)]
    obtain M' where M': "clean_up_unneeded_tags_from_info two_runs_and_scout = Inr M'"
      and one: "(\<forall>q\<in>set (map fst two_runs_and_scout). q \<noteq> ?k \<longrightarrow> inert (fst q)) \<longrightarrow>
                (if length two_entries = 1 \<and> str_contains run_placeholder (fst ?k)
                 then moved_to two_runs_and_scout M' ?k
                        (str_replace run_placeholder [] (fst ?k), snd ?k)
                 else if str_contains run_01 (fst ?k)
                         \<and> str_replace run_01 run_02 (fst ?k)
                             \<notin> fst ` fst ` set two_runs_and_scout
                 then moved_to two_runs_and_scout M' ?k (str_replace run_01 [] (fst ?k), snd ?k)
                 else M' = two_runs_and_scout)"
      by (elim exE conjE)
    from one others(2)
    have "moved_to two_runs_and_scout M' ?k (''task-rest_bold'', nii_and_dicom, None)"
      by (simp only: no_placeholder no_sibling target if_False if_True simp_thms)
    with M' show ?thesis by (intro exI conjI)
  qed
  have c: "\<exists>M'. clean_up_unneeded_tags_from_info single_run_map = Inr M'
         \<and> map_of M' dwi = Some two_entries"
  proof -
    from cleanup_rewrite_conditions [OF d(3) m(3)]
    obtain M' where M': "clean_up_unneeded_tags_from_info single_run_map = Inr M'"
      and keeps: "length two_entries \<noteq> 1 \<and> \<not> str_contains run_01 (fst dwi)
               \<and> (\<forall>q\<in>set (map fst single_run_map). q \<noteq> dwi \<longrightarrow>
                     (str_replace run_placeholder [] (fst q), snd q) \<noteq> dwi
                     \<and> (str_replace run_01 [] (fst q), snd q) \<noteq> dwi)
               \<longrightarrow> map_of M' dwi = Some two_entries"
      by (elim exE conjE)
    from keeps kept have "map_of M' dwi = Some two_entries" by (rule mp)
    with M' show ?thesis by (intro exI conjI)
  qed
  show ?thesis
    by (intro conjI) (rule d m a b c)+
qed

text \<open>
  C5 as stated fails: a key with \<^verbatim>\<open>_run-01\<close>, two assignments and no \<^verbatim>\<open>_run-02\<close>
  sibling is rewritten.
\<close>

theorem cleanup_rewrites_hard_coded_key_with_two_runs:
  "clean_up_unneeded_tags_from_info two_runs_hard_coded
     = Inr [((''task-rest_bold'', nii_and_dicom, None), two_entries)]
   \<and> length two_entries = 2"
  by code_simp

subsection \<open>The cascade\<close>

text \<open>
  C2. The claim is that a record is assigned by at most one rule. Every rule is chained
  with \<^verbatim>\<open>elif\<close> except the scout rule, which opens a second chain with an \<^verbatim>\<open>if\<close> of its
  own (line 301), so a record assigned by the first chain is examined again. The screen
  save \<open>inplane_screen_save_series\<close> is assigned by the in-plane rule and by the
  screen-save rule; \<open>inplane_calibration_series\<close> is assigned by the in-plane rule and by
  the coil-calibration rule. Neither reads an unbound name on its way. The map that
  \<^verbatim>\<open>infotodict\<close> returns holds each series under both keys, with the run tag erased by
  the cleanup.
\<close>

theorem series_assigned_by_both_chains:
  "(case infotodict [inplane_screen_save_series] of
      Inl e \<Rightarrow> False
    | Inr info \<Rightarrow>
        map_of info (new_key ''anat'' ''inplaneT1'' nii_and_dicom)
          = Some [\<lparr>item = ''2-inplane'', acq = None\<rparr>]
        \<and> map_of info (new_key ''misc'' ''screensave'' dicom_only)
            = Some [\<lparr>item = ''2-inplane'', acq = None\<rparr>])
   \<and> (case infotodict [inplane_calibration_series] of
        Inl e \<Rightarrow> False
      | Inr info \<Rightarrow>
          map_of info (new_key ''anat'' ''inplaneT1'' nii_and_dicom)
            = Some [\<lparr>item = ''13-inplane_cal'', acq = None\<rparr>]
          \<and> map_of info (new_key ''anat'' ''acq-biasReceive_PD'' nii_and_dicom)
              = Some [\<lparr>item = ''13-inplane_cal'', acq = None\<rparr>])"
  by code_simp

text \<open>
  C1. The claim is that \<^verbatim>\<open>infotodict\<close> returns on every well-typed input. An MPRAGE
  matches the first rule, whose first statement reads the unbound name \<^verbatim>\<open>direction\<close>
  (line 263): the pass ends with \<^verbatim>\<open>NameError\<close>. A gradient-echo field map whose image
  type has two entries reaches \<^verbatim>\<open>s.image_type[2]\<close> (line 451): the pass ends with
  \<^verbatim>\<open>IndexError\<close>.
\<close>

theorem infotodict_raises:
  "is_highres_t1 mprage_series \<and> infotodict [mprage_series] = Inl NameError
   \<and> is_gre_fmap gre_two_flags_series \<and> length (image_type gre_two_flags_series) = 2
   \<and> infotodict [gre_two_flags_series] = Inl IndexError"
  by code_simp

text \<open>
  C7. The claim is that a diffusion record is registered as an acquisition or as a field
  map, by its volume count. Both branches of the diffusion rule read an unbound name:
  with five volumes or more, \<^verbatim>\<open>previous_series_is_sbref\<close> after the append to \<open>dwi\<close> (line
  475); with fewer, \<^verbatim>\<open>direction\<close> before anything is registered (line 486). The pass ends
  with \<^verbatim>\<open>NameError\<close> and no map is returned.
\<close>

theorem diffusion_series_raises:
  "is_diffusion dwi_thirty_volumes \<and> dim4 dwi_thirty_volumes = 30
   \<and> map_sum id fst
         (second_chain [dwi_thirty_volumes] 0 dwi_thirty_volumes initial_info Map.empty)
       = Inl NameError
   \<and> infotodict [dwi_thirty_volumes] = Inl NameError
   \<and> is_diffusion dwi_two_volumes \<and> dim4 dwi_two_volumes = 2
   \<and> map_sum id fst
         (second_chain [dwi_two_volumes] 0 dwi_two_volumes initial_info Map.empty)
       = Inl NameError
   \<and> infotodict [dwi_two_volumes] = Inl NameError"
  by code_simp

end
